theory Spec2Isabelle
  imports Main "HOL-Library.Sublist"
begin

section \<open>The supervisor of impress.js as an event-driven state machine\<close>

text \<open>
  The file \<^verbatim>\<open>impress.js\<close> is one supervising thread: module-level flags, the variables
  of the main function, and callbacks registered on workers, timers, promises and the
  process. Each callback runs to completion on the event loop. The model is a state record
  with one field per variable of the source, a function per callback, and an event
  datatype with one constructor per kind of callback the runtime can invoke. Everything
  the supervisor does to the outside (posting messages, console output, calls into the
  pool, timers, \<^verbatim>\<open>process.exit\<close>) is appended to the field \<open>effects\<close>, in program order.

  An \<^verbatim>\<open>async\<close> function is split at its \<^verbatim>\<open>await\<close>: the part before it runs in the
  callback that called it and registers a continuation in \<open>pending\<close>; the part after it
  runs when the event \<open>Settle\<close> reports how the awaited promise ended.
\<close>

subsection \<open>Values\<close>

type_synonym handle = nat
  \<comment> \<open>the identity of a \<^verbatim>\<open>Worker\<close> object: the n-th object constructed by \<^verbatim>\<open>new Worker\<close>\<close>
type_synonym timer = nat
  \<comment> \<open>the identity of a \<^verbatim>\<open>Timeout\<close> object: the n-th call of \<^verbatim>\<open>setTimeout\<close>\<close>
type_synonym channel = nat
  \<comment> \<open>the identity of a \<^verbatim>\<open>MessagePort\<close>\<close>

record error_obj =
  err_stack :: "string option"
  err_message :: "string option"

record message =
  msg_type :: string
  msg_name :: string
  msg_port :: "channel option"
  msg_exclusive :: bool
  msg_data :: nat

datatype reply = ErrorReply string
  \<comment> \<open>\<^verbatim>\<open>{ error: new Error(text) }\<close>\<close>

datatype outcome = Fulfilled "handle option" | Rejected error_obj
  \<comment> \<open>how an awaited promise ended; \<^verbatim>\<open>null\<close> is \<open>Fulfilled None\<close>\<close>

datatype cont =
    ExitCont
  | StopCont
  | InvokeCont message

datatype effect =
    NewWorker handle
  | PostMessage handle message "channel list option"
  | PortPostMessage channel reply
  | PoolRelease handle
  | PoolCapture
  | PoolNext
  | SetTimeout timer nat
  | ClearTimeout timer
  | ConsoleError string
  | ConsoleWarn string
  | LoggerClose
  | ProcessExit int

datatype event =
    Exit handle int
  | Online handle
  | Message handle message
  | Timeout timer
  | Settle nat outcome
  | Signal
  | StdinData "nat list"
  | ProcessError string error_obj

text \<open>
  What the main function reads from its surroundings: \<^verbatim>\<open>config.server\<close>, the working
  directory \<^verbatim>\<open>PATH\<close> and \<^verbatim>\<open>process.stdin.isTTY\<close>. A field that may be \<^verbatim>\<open>undefined\<close> is an
  option.
\<close>

record env =
  balancer :: bool
  ports :: "nat list option"
  workers_pool :: "nat option"
  workers_wait :: "nat option"
  timeouts_start :: nat
  PATH :: string
  isTTY :: bool

record state =
  finalization :: bool
  initialization :: bool
  logger :: bool
  startTimer :: "timer option"
  active :: int
  starting :: int
  scheduler :: "handle option"
  threads :: "handle option list"
  pool :: "handle list"
  workers :: "nat list"
  timers :: "nat option list"
  pending :: "cont option list"
  effects :: "effect list"
  exited :: "int option"

text \<open>
  \<open>logger\<close> is true when the variable \<^verbatim>\<open>logger\<close> is not \<^verbatim>\<open>null\<close>. \<open>pool\<close> lists the
  handles given to \<^verbatim>\<open>pool.add\<close>, in order. The pool object itself (\<^verbatim>\<open>metautil.Pool\<close>)
  belongs to a library and is not among the sources: its other operations appear as
  effects (\<open>PoolCapture\<close>, \<open>PoolNext\<close>, \<open>PoolRelease\<close>), the promises they return
  settle by the event \<open>Settle\<close>, and it has no operation that removes an item. What
  the pool does inside a call, also an exception it may throw, is outside the model.
  \<open>workers ! w\<close> is the \<^verbatim>\<open>id\<close> that the callbacks of worker \<open>w\<close> have captured.
  \<open>timers ! t\<close> is \<open>Some i\<close> while timer \<open>t\<close> is armed, with the \<^verbatim>\<open>id\<close> its callback has
  captured, and \<open>None\<close> once the timer has fired or has been cleared. \<open>pending ! k\<close> is the continuation of the k-th
  \<^verbatim>\<open>await\<close>, \<open>None\<close> once it has run. \<open>exited\<close> is the code given to
  \<^verbatim>\<open>process.exit\<close>.
\<close>

subsection \<open>Constants of the main function (lines 70 to 75)\<close>

definition serversCount :: "env \<Rightarrow> nat" where
  "serversCount e =
     length (case ports e of None \<Rightarrow> [] | Some ps \<Rightarrow> ps) + (if balancer e then 1 else 0)"

definition schedulerCount :: nat where
  "schedulerCount = 1"

definition schedulerId :: "env \<Rightarrow> nat" where
  "schedulerId e = serversCount e"

definition poolSize :: "env \<Rightarrow> nat" where
  "poolSize e = (case workers_pool e of None \<Rightarrow> 0 | Some n \<Rightarrow> n)"

definition count :: "env \<Rightarrow> nat" where
  "count e = serversCount e + schedulerCount + poolSize e"

subsection \<open>Strings\<close>

text \<open>
  Modelled from the spec: \<^verbatim>\<open>metautil.replace(str, substr, newstr)\<close> belongs to a library
  and is not among the sources. The spec has the working directory removed from the
  fatal message: every occurrence of \<open>substr\<close>, found from left to right, is replaced by
  \<open>newstr\<close>, and \<open>str\<close> is returned when \<open>substr\<close> is empty.
\<close>

function replace :: "string \<Rightarrow> string \<Rightarrow> string \<Rightarrow> string" where
  "replace str substr newstr =
     (if substr = [] \<or> str = [] then str
      else if prefix substr str
        then newstr @ replace (drop (length substr) str) substr newstr
        else hd str # replace (tl str) substr newstr)"
  by pat_completeness auto
termination
  by (relation "measure (\<lambda>(str, substr, newstr). length str)") auto

declare replace.simps [simp del]

definition digit :: "nat \<Rightarrow> char" where
  "digit n = ''0123456789'' ! (n mod 10)"

function decimal :: "nat \<Rightarrow> string" where
  "decimal n = (if n < 10 then [digit n] else decimal (n div 10) @ [digit (n mod 10)])"
  by pat_completeness auto
termination
  by (relation "measure id") auto

declare decimal.simps [simp del]

definition truthy :: "string option \<Rightarrow> bool" where
  "truthy x = (case x of None \<Rightarrow> False | Some s \<Rightarrow> s \<noteq> [])"

definition error_text :: "error_obj \<Rightarrow> string" where
  "error_text err =
     (if truthy (err_stack err) then the (err_stack err)
      else if truthy (err_message err) then the (err_message err)
      else ''no stack trace'')"

definition TypeError :: error_obj where
  "TypeError = \<lparr>err_stack = Some ''TypeError'', err_message = Some ''TypeError''\<rparr>"

subsection \<open>Primitive actions\<close>

definition emit :: "effect list \<Rightarrow> state \<Rightarrow> state" where
  "emit es s = s\<lparr>effects := effects s @ es\<rparr>"

definition await :: "cont \<Rightarrow> state \<Rightarrow> state" where
  "await c s = s\<lparr>pending := pending s @ [Some c]\<rparr>"

definition process_exit :: "int \<Rightarrow> state \<Rightarrow> state" where
  "process_exit c s = (emit [ProcessExit c] s)\<lparr>exited := Some c\<rparr>"

definition array_set :: "'a option list \<Rightarrow> nat \<Rightarrow> 'a \<Rightarrow> 'a option list" where
  "array_set xs i v =
     (if i < length xs then xs[i := Some v]
      else xs @ replicate (i - length xs) None @ [Some v])"

subsection \<open>exit and logError (lines 24 to 39)\<close>

definition default_message :: string where
  "default_message = ''Can not start Application server''"

definition exit :: "env \<Rightarrow> string \<Rightarrow> state \<Rightarrow> state" where
  "exit e message s =
     (let s1 = emit [ConsoleError (replace message (PATH e) [])] s in
      if logger s1 then await ExitCont (emit [LoggerClose] s1)
      else process_exit 1 s1)"

definition logError :: "env \<Rightarrow> string \<Rightarrow> error_obj \<Rightarrow> state \<Rightarrow> state" where
  "logError e type err s =
     (let msg = error_text err;
          s1 = emit [ConsoleError (type @ '' error: '' @ msg)] s in
      if finalization s1 then s1
      else if initialization s1 then exit e default_message s1
      else s1)"

subsection \<open>stop (lines 83 to 90)\<close>

text \<open>
  The loop over \<^verbatim>\<open>threads\<close> posts to each entry in index order. An entry that is
  \<^verbatim>\<open>undefined\<close> makes \<^verbatim>\<open>worker.postMessage\<close> throw a TypeError, which ends the loop and
  rejects the promise of \<^verbatim>\<open>stop\<close>; nothing handles that promise, so the process reports an
  unhandled rejection.
\<close>

definition stop_message :: message where
  "stop_message =
     \<lparr>msg_type = ''event'', msg_name = ''stop'', msg_port = None, msg_exclusive = False,
      msg_data = 0\<rparr>"

fun broadcast :: "handle option list \<Rightarrow> effect list \<times> bool" where
  "broadcast [] = ([], True)"
| "broadcast (None # ws) = ([], False)"
| "broadcast (Some w # ws) =
     (let (es, ok) = broadcast ws in (PostMessage w stop_message None # es, ok))"

definition stop :: "env \<Rightarrow> state \<Rightarrow> state" where
  "stop e s =
     (let s1 = s\<lparr>finalization := True\<rparr>;
          s2 = emit [LoggerClose] s1;
          (es, ok) = broadcast (threads s2);
          s3 = emit es s2 in
      if ok then await StopCont s3
      else logError e ''unhandledRejection'' TypeError s3)"

subsection \<open>start and the callbacks it registers (lines 92 to 153)\<close>

definition start :: "env \<Rightarrow> nat \<Rightarrow> state \<Rightarrow> state" where
  "start e id' s =
     (let worker = length (workers s);
          s1 = (emit [NewWorker worker] s)\<lparr>workers := workers s @ [id']\<rparr>;
          s2 = s1\<lparr>threads := array_set (threads s1) id' worker\<rparr> in
      if id' = schedulerId e then s2\<lparr>scheduler := Some worker\<rparr>
      else if id' > schedulerId e then s2\<lparr>pool := pool s2 @ [worker]\<rparr>
      else s2)"

definition on_exit :: "env \<Rightarrow> nat \<Rightarrow> int \<Rightarrow> state \<Rightarrow> state" where
  "on_exit e id' code s =
     (let s1 = s\<lparr>active := active s - 1\<rparr> in
      if code \<noteq> 0 then start e id' s1
      else if active s1 = 0 then process_exit 0 s1
      else if active s1 < 0 \<and> id' = 0 then exit e ''Application server stopped'' s1
      else s1)"

definition on_online :: "env \<Rightarrow> nat \<Rightarrow> state \<Rightarrow> state" where
  "on_online e id' s =
     (let s1 = s\<lparr>starting := starting s + 1\<rparr> in
      if starting s1 = int (count e) then
        (let t = length (timers s1) in
         (emit [SetTimeout t (timeouts_start e)] s1)
           \<lparr>timers := timers s1 @ [Some id'], startTimer := Some t\<rparr>)
      else s1)"

definition on_timeout :: "env \<Rightarrow> nat \<Rightarrow> state \<Rightarrow> state" where
  "on_timeout e id' s =
     (if active s \<noteq> int (count e)
      then emit [ConsoleWarn (''Worker '' @ decimal id' @ '' initialization timeout'')] s
      else s)"

definition ITC_event :: "env \<Rightarrow> message \<Rightarrow> state \<Rightarrow> state" where
  "ITC_event e msg s =
     (if msg_name msg \<noteq> ''started'' then s
      else
        (let s1 = s\<lparr>active := active s + 1\<rparr> in
         case startTimer s1 of
           Some t \<Rightarrow>
             if active s1 = int (count e)
             then (emit [ClearTimeout t] s1)
                    \<lparr>timers := (timers s1)[t := None], startTimer := None\<rparr>
             else s1
         | None \<Rightarrow> s1))"

definition ITC_task :: "env \<Rightarrow> message \<Rightarrow> state \<Rightarrow> state" where
  "ITC_task e msg s =
     (if msg_type msg \<noteq> ''task'' then s
      else
        (let transferList = (case msg_port msg of Some p \<Rightarrow> Some [p] | None \<Rightarrow> None) in
         case scheduler s of
           Some w \<Rightarrow> emit [PostMessage w msg transferList] s
         | None \<Rightarrow> logError e ''uncaughtException'' TypeError s))"

text \<open>
  \<^verbatim>\<open>ITC.invoke\<close> up to its \<^verbatim>\<open>await\<close>. \<open>worker\<close> is the variable of the enclosing call of
  \<^verbatim>\<open>start\<close>: the worker on which the message arrived.
\<close>

definition ITC_invoke :: "env \<Rightarrow> handle \<Rightarrow> message \<Rightarrow> state \<Rightarrow> state" where
  "ITC_invoke e worker msg s =
     (if msg_name msg = ''done'' then
        (if msg_exclusive msg then emit [PoolRelease worker] s else s)
      else if msg_name msg \<noteq> ''request'' then s
      else
        await (InvokeCont msg)
          (emit [if msg_exclusive msg then PoolCapture else PoolNext] s))"

text \<open>
  \<^verbatim>\<open>ITC.invoke\<close> after its \<^verbatim>\<open>await\<close>. The awaited promise is
  \<^verbatim>\<open>promisedThread.catch(...)\<close>: when the pool rejects, the handler posts the error on
  \<^verbatim>\<open>port\<close> and gives \<^verbatim>\<open>null\<close>. Without a port, \<^verbatim>\<open>port.postMessage\<close> and the transfer list
  \<^verbatim>\<open>[port]\<close> throw, the promise of \<^verbatim>\<open>ITC.invoke\<close> rejects and nothing handles it.
\<close>

definition invoke_resume :: "env \<Rightarrow> message \<Rightarrow> outcome \<Rightarrow> state \<Rightarrow> state" where
  "invoke_resume e msg out s =
     (case out of
        Rejected err \<Rightarrow>
          (case msg_port msg of
             Some port \<Rightarrow> emit [PortPostMessage port (ErrorReply ''No thread available'')] s
           | None \<Rightarrow> logError e ''unhandledRejection'' TypeError s)
      | Fulfilled None \<Rightarrow> s
      | Fulfilled (Some next) \<Rightarrow>
          (case msg_port msg of
             Some port \<Rightarrow> emit [PostMessage next msg (Some [port])] s
           | None \<Rightarrow> logError e ''unhandledRejection'' TypeError s))"

text \<open>
  The \<^verbatim>\<open>message\<close> callback looks the handler up by \<^verbatim>\<open>msg.type\<close> among \<^verbatim>\<open>event\<close>,
  \<^verbatim>\<open>task\<close> and \<^verbatim>\<open>invoke\<close>. A type that names a property which the object \<^verbatim>\<open>ITC\<close>
  inherits (\<^verbatim>\<open>toString\<close>, \<^verbatim>\<open>constructor\<close>, ...) is not modelled: here every other type is
  ignored.
\<close>

definition on_message :: "env \<Rightarrow> handle \<Rightarrow> message \<Rightarrow> state \<Rightarrow> state" where
  "on_message e worker msg s =
     (if msg_type msg = ''event'' then ITC_event e msg s
      else if msg_type msg = ''task'' then ITC_task e msg s
      else if msg_type msg = ''invoke'' then ITC_invoke e worker msg s
      else s)"

subsection \<open>Continuations of the awaits\<close>

definition resume :: "env \<Rightarrow> cont \<Rightarrow> outcome \<Rightarrow> state \<Rightarrow> state" where
  "resume e c out s =
     (case c of
        ExitCont \<Rightarrow>
          (case out of
             Fulfilled v \<Rightarrow> process_exit 1 s
           | Rejected err \<Rightarrow> logError e ''unhandledRejection'' err s)
      | StopCont \<Rightarrow>
          (case out of
             Fulfilled v \<Rightarrow> s
           | Rejected err \<Rightarrow> logError e ''unhandledRejection'' err s)
      | InvokeCont msg \<Rightarrow> invoke_resume e msg out s)"

subsection \<open>The event loop\<close>

definition CTRL_C :: nat where
  "CTRL_C = 3"

definition on_data :: "env \<Rightarrow> nat list \<Rightarrow> state \<Rightarrow> state" where
  "on_data e data s =
     (if isTTY e then
        (case data of
           [] \<Rightarrow> s
         | key # rest \<Rightarrow> if key = CTRL_C then stop e s else s)
      else s)"

text \<open>
  One turn of the event loop. After \<^verbatim>\<open>process.exit\<close> nothing runs. An event of a worker
  or timer that was never created, of a timer that is not armed, or of an await that has
  already continued, has no callback. The events are not restricted to what a worker
  thread can do (a worker reports its exit once, and reports online before it sends a
  message): a property that needs such a restriction states it.
\<close>

definition step :: "env \<Rightarrow> state \<Rightarrow> event \<Rightarrow> state" where
  "step e s ev =
     (if exited s \<noteq> None then s
      else case ev of
        Exit w code \<Rightarrow> if w < length (workers s) then on_exit e (workers s ! w) code s else s
      | Online w \<Rightarrow> if w < length (workers s) then on_online e (workers s ! w) s else s
      | Message w msg \<Rightarrow> if w < length (workers s) then on_message e w msg s else s
      | Timeout t \<Rightarrow>
          (if t < length (timers s) then
             (case timers s ! t of
                Some id' \<Rightarrow> on_timeout e id' (s\<lparr>timers := (timers s)[t := None]\<rparr>)
              | None \<Rightarrow> s)
           else s)
      | Settle k out \<Rightarrow>
          (if k < length (pending s) then
             (case pending s ! k of
                Some c \<Rightarrow> resume e c out (s\<lparr>pending := (pending s)[k := None]\<rparr>)
              | None \<Rightarrow> s)
           else s)
      | Signal \<Rightarrow> stop e s
      | StdinData data \<Rightarrow> on_data e data s
      | ProcessError type err \<Rightarrow> logError e type err s)"

fun run :: "env \<Rightarrow> state \<Rightarrow> event list \<Rightarrow> state" where
  "run e s [] = s"
| "run e s (ev # evs) = run e (step e s ev) evs"

subsection \<open>The main function from line 76 on\<close>

definition init :: "env \<Rightarrow> state" where
  "init e =
     \<lparr>finalization = False, initialization = True, logger = True, startTimer = None,
      active = 0, starting = 0, scheduler = None, threads = replicate (count e) None,
      pool = [], workers = [], timers = [], pending = [], effects = [], exited = None\<rparr>"

function start_loop :: "env \<Rightarrow> nat \<Rightarrow> state \<Rightarrow> state" where
  "start_loop e id' s = (if id' < count e then start_loop e (id' + 1) (start e id' s) else s)"
  by pat_completeness auto
termination
  by (relation "measure (\<lambda>(e, id', s). count e - id')") auto

declare start_loop.simps [simp del]

definition main :: "env \<Rightarrow> state" where
  "main e = (start_loop e 0 (init e))\<lparr>initialization := False\<rparr>"

subsection \<open>Concrete configurations and messages\<close>

text \<open>
  Two ports, no balancer and a pool of one: slots 0 and 1 are servers, slot 2 is the
  scheduler and slot 3 is the pool worker.
\<close>

definition env4 :: env where
  "env4 =
     \<lparr>balancer = False, ports = Some [8000, 8001], workers_pool = Some 1, workers_wait = Some 100,
      timeouts_start = 1000, PATH = ''/srv/app'', isTTY = False\<rparr>"

definition started_message :: message where
  "started_message =
     \<lparr>msg_type = ''event'', msg_name = ''started'', msg_port = None, msg_exclusive = False,
      msg_data = 0\<rparr>"

definition request_message :: "bool \<Rightarrow> message" where
  "request_message x =
     \<lparr>msg_type = ''invoke'', msg_name = ''request'', msg_port = Some 5, msg_exclusive = x,
      msg_data = 42\<rparr>"

definition done_message :: "bool \<Rightarrow> message" where
  "done_message x =
     \<lparr>msg_type = ''invoke'', msg_name = ''done'', msg_port = None, msg_exclusive = x,
      msg_data = 0\<rparr>"

definition boom :: error_obj where
  "boom = \<lparr>err_stack = Some ''Error: boom'', err_message = Some ''boom''\<rparr>"

subsection \<open>Event sequences\<close>


fun starteds :: "event list \<Rightarrow> handle list" where
  "starteds [] = []"
| "starteds (Message w msg # evs) =
     (if msg_type msg = ''event'' \<and> msg_name msg = ''started'' then w # starteds evs
      else starteds evs)"
| "starteds (ev # evs) = starteds evs"


subsection \<open>Consistency of the worker tables\<close>

text \<open>
  What holds of \<open>threads\<close>, \<open>workers\<close> and \<open>pool\<close> after the start loop and after every
  event: every slot below \<open>count\<close> holds a worker that was created for it, every worker
  was created for a slot below \<open>count\<close>, every worker of a slot above the scheduler's is
  in the pool, and the pool holds only workers that were created.
\<close>

definition coherent :: "env \<Rightarrow> state \<Rightarrow> bool" where
  "coherent e s \<longleftrightarrow>
     length (threads s) = count e \<and>
     (\<forall>i < count e. \<exists>w < length (workers s). threads s ! i = Some w \<and> workers s ! w = i) \<and>
     (\<forall>w < length (workers s). workers s ! w < count e) \<and>
     (\<forall>w < length (workers s). schedulerId e < workers s ! w \<longrightarrow> w \<in> set (pool s)) \<and>
     (\<forall>w \<in> set (pool s). w < length (workers s))"

subsection \<open>State of the startup deadline\<close>

text \<open>
  What holds of the timer and of the warnings after the start loop and after every event:
  before \<open>starting\<close> has reached \<open>count\<close> no timer exists and nothing was warned;
  afterwards there is one timer, which is either still armed, with nothing warned, or
  spent, with at most one warning.
\<close>

fun is_warning :: "effect \<Rightarrow> bool" where
  "is_warning (ConsoleWarn m) = True"
| "is_warning x = False"

definition deadline :: "env \<Rightarrow> state \<Rightarrow> bool" where
  "deadline e s \<longleftrightarrow>
     (starting s < int (count e) \<and> timers s = [] \<and> filter is_warning (effects s) = []) \<or>
     (int (count e) \<le> starting s \<and> timers s = [None] \<and>
        length (filter is_warning (effects s)) \<le> 1) \<or>
     (int (count e) \<le> starting s \<and> (\<exists>i. timers s = [Some i]) \<and>
        filter is_warning (effects s) = [])"

text \<open>The state in which the steps of \<^const>\<open>start_loop\<close> have spawned the slots below \<open>i\<close>.\<close>

definition booted :: "env \<Rightarrow> nat \<Rightarrow> state \<Rightarrow> bool" where
  "booted e i s \<longleftrightarrow>
     workers s = [0..<i] \<and>
     threads s = map Some [0..<i] @ replicate (count e - i) None \<and>
     scheduler s = (if schedulerId e < i then Some (schedulerId e) else None) \<and>
     pool s = [Suc (schedulerId e)..<i] \<and>
     effects s = map NewWorker [0..<i]"


section \<open>Properties\<close>

subsection \<open>Unfolding the model\<close>

lemmas prim_defs = emit_def await_def process_exit_def

lemmas const_defs = count_def serversCount_def schedulerCount_def schedulerId_def poolSize_def

lemmas handler_defs =
  step_def on_exit_def on_online_def on_timeout_def on_message_def ITC_event_def ITC_task_def
  ITC_invoke_def invoke_resume_def resume_def on_data_def stop_def logError_def exit_def
  start_def array_set_def

subsection \<open>The start loop\<close>

lemma count_gt_schedulerId: "schedulerId e < count e"
  by (simp add: count_def schedulerId_def schedulerCount_def)

lemma array_set_next:
  "i < n \<Longrightarrow> array_set (map Some [0..<i] @ replicate (n - i) None) i i =
     map Some [0..<Suc i] @ replicate (n - Suc i) None"
proof -
  assume "i < n"
  then obtain k where k: "n - i = Suc k" "n - Suc i = k"
    by (metis Suc_diff_Suc)
  show ?thesis
    by (simp add: array_set_def k list_update_append)
qed

lemma start_loop_step:
  "i < count e \<Longrightarrow> start_loop e i s = start_loop e (Suc i) (start e i s)"
  by (subst start_loop.simps) simp

lemma start_loop_done: "\<not> i < count e \<Longrightarrow> start_loop e i s = s"
  by (subst start_loop.simps) simp

lemma booted_start: "i < count e \<Longrightarrow> booted e i s \<Longrightarrow> booted e (Suc i) (start e i s)"
  by (auto simp: booted_def start_def emit_def Let_def array_set_next)

lemma booted_start_loop:
  "i \<le> count e \<Longrightarrow> booted e i s \<Longrightarrow> booted e (count e) (start_loop e i s)"
proof (induction e i s rule: start_loop.induct)
  case (1 e i s)
  show ?case
  proof (cases "i < count e")
    case True
    have "booted e (Suc i) (start e i s)"
      using True "1.prems"(2) by (rule booted_start)
    with "1.IH"[OF True] True have "booted e (count e) (start_loop e (Suc i) (start e i s))"
      by simp
    then show ?thesis by (simp only: start_loop_step[OF True])
  next
    case False
    with "1.prems" show ?thesis by (simp add: start_loop_done)
  qed
qed

lemma start_frame:
  "finalization (start e i s) = finalization s \<and> initialization (start e i s) = initialization s \<and>
   logger (start e i s) = logger s \<and> startTimer (start e i s) = startTimer s \<and>
   active (start e i s) = active s \<and> starting (start e i s) = starting s \<and>
   timers (start e i s) = timers s \<and> pending (start e i s) = pending s \<and>
   exited (start e i s) = exited s"
  by (simp add: start_def emit_def Let_def)

lemma start_loop_frame:
  "finalization (start_loop e i s) = finalization s \<and>
   initialization (start_loop e i s) = initialization s \<and>
   logger (start_loop e i s) = logger s \<and> startTimer (start_loop e i s) = startTimer s \<and>
   active (start_loop e i s) = active s \<and> starting (start_loop e i s) = starting s \<and>
   timers (start_loop e i s) = timers s \<and> pending (start_loop e i s) = pending s \<and>
   exited (start_loop e i s) = exited s"
proof (induction e i s rule: start_loop.induct)
  case (1 e i s)
  show ?case
  proof (cases "i < count e")
    case True
    from "1.IH"[OF True] show ?thesis
      by (simp add: start_loop_step[OF True] start_frame)
  next
    case False
    then show ?thesis by (simp add: start_loop_done)
  qed
qed

lemma booted_init: "booted e 0 (init e)"
  by (simp add: booted_def init_def)

lemma booted_main: "booted e (count e) (main e)"
  using booted_start_loop[OF _ booted_init, of e]
  by (simp add: main_def booted_def)

lemma main_frame:
  "\<not> finalization (main e) \<and> \<not> initialization (main e) \<and> logger (main e) \<and>
   startTimer (main e) = None \<and> active (main e) = 0 \<and> starting (main e) = 0 \<and>
   timers (main e) = [] \<and> pending (main e) = [] \<and> exited (main e) = None"
  by (simp add: main_def start_loop_frame init_def)


lemma main_env4:
  "main env4 =
     \<lparr>finalization = False, initialization = False, logger = True, startTimer = None,
      active = 0, starting = 0, scheduler = Some 2,
      threads = [Some 0, Some 1, Some 2, Some 3], pool = [3], workers = [0, 1, 2, 3],
      timers = [], pending = [],
      effects = [NewWorker 0, NewWorker 1, NewWorker 2, NewWorker 3], exited = None\<rparr>"
  by (simp add: main_def init_def start_loop.simps start_def emit_def array_set_def env4_def
      const_defs Let_def)

lemma count_env4: "count env4 = 4" and schedulerId_env4: "schedulerId env4 = 2"
  by (simp_all add: env4_def const_defs)

subsection \<open>Every event keeps the worker tables consistent\<close>

lemma coherent_main: "coherent e (main e)"
  using booted_main[of e]
  by (auto simp: coherent_def booted_def main_def nth_append)

lemma coherent_start:
  assumes "coherent e s" and "i < count e"
  shows "coherent e (start e i s)"
  using assms
  by (auto simp: coherent_def start_def array_set_def emit_def Let_def nth_append nth_list_update
        less_Suc_eq)

lemma coherent_fields:
  assumes "coherent e s" and "threads s' = threads s \<and> workers s' = workers s \<and> pool s' = pool s"
  shows "coherent e s'"
  using assms by (simp add: coherent_def)

lemma step_same_or_start:
  "(threads (step e s ev) = threads s \<and> workers (step e s ev) = workers s \<and>
    pool (step e s ev) = pool s) \<or>
   (\<exists>w c. ev = Exit w c \<and> w < length (workers s) \<and>
      threads (step e s ev) = threads (start e (workers s ! w) s) \<and>
      workers (step e s ev) = workers (start e (workers s ! w) s) \<and>
      pool (step e s ev) = pool (start e (workers s ! w) s))"
  by (cases ev)
    (auto simp: handler_defs prim_defs Let_def
          split: option.splits cont.splits outcome.splits list.splits prod.splits)

lemma coherent_step: "coherent e s \<Longrightarrow> coherent e (step e s ev)"
proof -
  assume inv: "coherent e s"
  from step_same_or_start[of e s ev] show ?thesis
  proof
    assume "threads (step e s ev) = threads s \<and> workers (step e s ev) = workers s \<and>
      pool (step e s ev) = pool s"
    with inv show ?thesis by (rule coherent_fields)
  next
    assume "\<exists>w c. ev = Exit w c \<and> w < length (workers s) \<and>
      threads (step e s ev) = threads (start e (workers s ! w) s) \<and>
      workers (step e s ev) = workers (start e (workers s ! w) s) \<and>
      pool (step e s ev) = pool (start e (workers s ! w) s)"
    then obtain w where w: "w < length (workers s)"
      and eq: "threads (step e s ev) = threads (start e (workers s ! w) s)"
        "workers (step e s ev) = workers (start e (workers s ! w) s)"
        "pool (step e s ev) = pool (start e (workers s ! w) s)"
      by blast
    from inv w have "workers s ! w < count e" by (simp add: coherent_def)
    with inv have "coherent e (start e (workers s ! w) s)" by (rule coherent_start)
    then show ?thesis by (rule coherent_fields) (simp add: eq)
  qed
qed

lemma coherent_run: "coherent e s \<Longrightarrow> coherent e (run e s evs)"
  by (induction evs arbitrary: s) (simp_all add: coherent_step)



lemma start_fields:
  "workers (start e j t) = workers t @ [j] \<and>
   threads (start e j t) = array_set (threads t) j (length (workers t))"
  by (simp add: start_def emit_def Let_def)

lemma slot_stays_step:
  assumes inv: "coherent e t" and tk: "take n (workers t) = ws" and n: "length ws = n"
    and fresh: "i \<notin> set (drop n (workers t))"
    and quiet: "\<forall>w' c. ev = Exit w' c \<longrightarrow> w' < n \<longrightarrow> ws ! w' \<noteq> i"
  shows "take n (workers (step e t ev)) = ws \<and> i \<notin> set (drop n (workers (step e t ev))) \<and>
         threads (step e t ev) ! i = threads t ! i"
proof -
  from tk n have le: "n \<le> length (workers t)"
    by (metis length_take min.cobounded2 min.commute)
  from step_same_or_start[of e t ev] show ?thesis
  proof
    assume "threads (step e t ev) = threads t \<and> workers (step e t ev) = workers t \<and>
      pool (step e t ev) = pool t"
    with tk fresh show ?thesis by simp
  next
    assume "\<exists>w c. ev = Exit w c \<and> w < length (workers t) \<and>
      threads (step e t ev) = threads (start e (workers t ! w) t) \<and>
      workers (step e t ev) = workers (start e (workers t ! w) t) \<and>
      pool (step e t ev) = pool (start e (workers t ! w) t)"
    then obtain w' c where ev: "ev = Exit w' c" and w': "w' < length (workers t)"
      and th: "threads (step e t ev) = array_set (threads t) (workers t ! w') (length (workers t))"
      and wk: "workers (step e t ev) = workers t @ [workers t ! w']"
      by (auto simp: start_fields)
    have ne: "workers t ! w' \<noteq> i"
    proof (cases "w' < n")
      case True
      with tk have "workers t ! w' = ws ! w'" by (metis nth_take)
      with quiet ev True show ?thesis by simp
    next
      case False
      with w' have "workers t ! w' \<in> set (drop n (workers t))"
        by (auto simp: in_set_conv_nth intro!: exI[of _ "w' - n"])
      with fresh show ?thesis by auto
    qed
    from inv w' have "workers t ! w' < length (threads t)" by (simp add: coherent_def)
    with th ne have "threads (step e t ev) ! i = threads t ! i"
      by (simp add: array_set_def)
    with wk tk fresh ne le show ?thesis by simp
  qed
qed

lemma slot_stays_run:
  assumes "coherent e t" and "take n (workers t) = ws" and "length ws = n"
    and "i \<notin> set (drop n (workers t))"
    and "\<forall>w' c. Exit w' c \<in> set evs \<longrightarrow> w' < n \<longrightarrow> ws ! w' \<noteq> i"
  shows "take n (workers (run e t evs)) = ws \<and> i \<notin> set (drop n (workers (run e t evs))) \<and>
         threads (run e t evs) ! i = threads t ! i"
  using assms
proof (induction evs arbitrary: t)
  case Nil
  then show ?case by simp
next
  case (Cons ev evs)
  have q: "\<forall>w' c. ev = Exit w' c \<longrightarrow> w' < n \<longrightarrow> ws ! w' \<noteq> i"
    using Cons.prems(5) by auto
  note st = slot_stays_step[OF Cons.prems(1-4) q]
  have "coherent e (step e t ev)" using Cons.prems(1) by (rule coherent_step)
  moreover have "\<forall>w' c. Exit w' c \<in> set evs \<longrightarrow> w' < n \<longrightarrow> ws ! w' \<noteq> i"
    using Cons.prems(5) by auto
  ultimately have "take n (workers (run e (step e t ev) evs)) = ws \<and>
      i \<notin> set (drop n (workers (run e (step e t ev) evs))) \<and>
      threads (run e (step e t ev) evs) ! i = threads (step e t ev) ! i"
    using st Cons.prems(3) by (intro Cons.IH) simp_all
  with st show ?case by simp
qed

subsection \<open>Pending continuations, the pool and the flags along a run\<close>

lemma pending_step:
  assumes "k < length (pending s)" and "pending s ! k = Some c" and "\<forall>out. ev \<noteq> Settle k out"
  shows "k < length (pending (step e s ev)) \<and> pending (step e s ev) ! k = Some c"
  using assms
  by (cases ev)
    (auto simp: handler_defs prim_defs Let_def nth_append nth_list_update
          split: option.splits cont.splits outcome.splits list.splits prod.splits)

lemma pending_run:
  assumes "k < length (pending s)" and "pending s ! k = Some c"
    and "\<forall>out. Settle k out \<notin> set evs"
  shows "k < length (pending (run e s evs)) \<and> pending (run e s evs) ! k = Some c"
  using assms
proof (induction evs arbitrary: s)
  case Nil
  then show ?case by simp
next
  case (Cons ev evs)
  from Cons.prems have "\<forall>out. ev \<noteq> Settle k out" by auto
  with Cons.prems have "k < length (pending (step e s ev)) \<and> pending (step e s ev) ! k = Some c"
    by (intro pending_step) auto
  with Cons.IH[of "step e s ev"] Cons.prems(3) show ?case by simp
qed

lemma pool_step: "prefix (pool s) (pool (step e s ev))"
  by (cases ev)
    (auto simp: handler_defs prim_defs Let_def
          split: option.splits cont.splits outcome.splits list.splits prod.splits)

lemma pool_run: "prefix (pool s) (pool (run e s evs))"
proof (induction evs arbitrary: s)
  case Nil
  show ?case by simp
next
  case (Cons ev evs)
  have "prefix (pool s) (pool (step e s ev))" by (rule pool_step)
  also have "prefix (pool (step e s ev)) (pool (run e (step e s ev) evs))" by (rule Cons.IH)
  finally show ?case by simp
qed

lemma not_initialization_step:
  "\<not> initialization s \<Longrightarrow> \<not> initialization (step e s ev)"
  by (cases ev)
    (auto simp: handler_defs prim_defs Let_def
          split: option.splits cont.splits outcome.splits list.splits prod.splits)

lemma not_initialization_run: "\<not> initialization (run e (main e) evs)"
proof -
  have "\<not> initialization s \<Longrightarrow> \<not> initialization (run e s evs)" for s
    by (induction evs arbitrary: s) (simp_all add: not_initialization_step)
  then show ?thesis by (simp add: main_frame)
qed

subsection \<open>The counters along a run\<close>










subsection \<open>The startup deadline along a run\<close>

lemma deadline_main: "deadline e (main e)"
  using booted_main[of e] main_frame[of e]
  by (simp add: deadline_def booted_def filter_empty_conv count_def schedulerCount_def)

lemma broadcast_no_warning: "filter is_warning (fst (broadcast ts)) = []"
  by (induction ts rule: broadcast.induct) (auto split: prod.splits)

lemma stop_deadline:
  "starting (stop e s) = starting s \<and> timers (stop e s) = timers s \<and>
   filter is_warning (effects (stop e s)) = filter is_warning (effects s)"
proof -
  obtain es ok where b: "broadcast (threads s) = (es, ok)"
    by (cases "broadcast (threads s)")
  with broadcast_no_warning[of "threads s"] have "filter is_warning es = []" by simp
  with b show ?thesis
    by (simp add: stop_def logError_def exit_def prim_defs Let_def)
qed

lemma logError_deadline:
  "starting (logError e ty err s) = starting s \<and> timers (logError e ty err s) = timers s \<and>
   filter is_warning (effects (logError e ty err s)) = filter is_warning (effects s)"
  by (simp add: logError_def exit_def prim_defs Let_def)

lemma step_deadline_other:
  assumes "\<forall>w. ev \<noteq> Online w" and "\<forall>t. ev \<noteq> Timeout t" and "\<forall>w m. ev \<noteq> Message w m"
  shows "starting (step e s ev) = starting s \<and> timers (step e s ev) = timers s \<and>
     filter is_warning (effects (step e s ev)) = filter is_warning (effects s)"
proof (cases ev)
  case (Exit w c)
  then show ?thesis
    by (simp add: step_def on_exit_def start_def exit_def prim_defs Let_def)
next
  case (Settle k out)
  then show ?thesis
    by (simp add: step_def resume_def invoke_resume_def logError_deadline prim_defs
        split: option.splits cont.splits outcome.splits)
next
  case Signal
  then show ?thesis by (simp add: step_def stop_deadline)
next
  case (StdinData d)
  then show ?thesis by (simp add: step_def on_data_def stop_deadline split: list.splits)
next
  case (ProcessError ty err)
  then show ?thesis by (simp add: step_def logError_deadline)
qed (use assms in simp_all)

lemma step_deadline_online:
  "filter is_warning (effects (step e s (Online w))) = filter is_warning (effects s) \<and>
   ((starting (step e s (Online w)) = starting s \<and> timers (step e s (Online w)) = timers s) \<or>
    (starting (step e s (Online w)) = starting s + 1 \<and> starting s + 1 \<noteq> int (count e) \<and>
       timers (step e s (Online w)) = timers s) \<or>
    (starting (step e s (Online w)) = starting s + 1 \<and> starting s + 1 = int (count e) \<and>
       timers (step e s (Online w)) = timers s @ [Some (workers s ! w)]))"
  by (simp add: step_def on_online_def prim_defs Let_def)

lemma step_deadline_message:
  "filter is_warning (effects (step e s (Message w msg))) = filter is_warning (effects s) \<and>
   starting (step e s (Message w msg)) = starting s \<and>
   (timers (step e s (Message w msg)) = timers s \<or>
    (\<exists>t. timers (step e s (Message w msg)) = (timers s)[t := None]))"
  by (auto simp: step_def on_message_def ITC_event_def ITC_task_def ITC_invoke_def
      logError_deadline prim_defs Let_def split: option.splits)

lemma step_deadline_timeout:
  "starting (step e s (Timeout t)) = starting s \<and>
   ((timers (step e s (Timeout t)) = timers s \<and>
       filter is_warning (effects (step e s (Timeout t))) = filter is_warning (effects s)) \<or>
    (t < length (timers s) \<and> timers s ! t \<noteq> None \<and>
       timers (step e s (Timeout t)) = (timers s)[t := None] \<and>
       length (filter is_warning (effects (step e s (Timeout t)))) \<le>
         length (filter is_warning (effects s)) + 1))"
  by (simp add: step_def on_timeout_def prim_defs split: option.splits)

lemma deadline_same:
  assumes "deadline e s" and "starting s' = starting s" and "timers s' = timers s"
    and "filter is_warning (effects s') = filter is_warning (effects s)"
  shows "deadline e s'"
  using assms unfolding deadline_def by simp

lemma deadline_disarm:
  assumes d: "deadline e s" and st: "starting s' = starting s"
    and tm: "timers s' = (timers s)[t := None]"
    and w: "filter is_warning (effects s') = filter is_warning (effects s) \<or>
            (t < length (timers s) \<and> timers s ! t \<noteq> None \<and>
             length (filter is_warning (effects s')) \<le>
               length (filter is_warning (effects s)) + 1)"
  shows "deadline e s'"
proof -
  from d consider
    (none) "starting s < int (count e)" "timers s = []" "filter is_warning (effects s) = []"
  | (spent) "int (count e) \<le> starting s" "timers s = [None]"
      "length (filter is_warning (effects s)) \<le> 1"
  | (armed) i where "int (count e) \<le> starting s" "timers s = [Some i]"
      "filter is_warning (effects s) = []"
    unfolding deadline_def by blast
  then show ?thesis
  proof cases
    case none
    with tm w st show ?thesis unfolding deadline_def by simp
  next
    case spent
    from spent(2) tm have t': "timers s' = [None]" by (cases t) simp_all
    from spent(2) w have "filter is_warning (effects s') = filter is_warning (effects s)"
      by (cases t) auto
    with t' spent st show ?thesis unfolding deadline_def by simp
  next
    case armed
    show ?thesis
    proof (cases t)
      case 0
      with armed tm have "timers s' = [None]" by simp
      moreover from w armed have "length (filter is_warning (effects s')) \<le> 1" by auto
      ultimately show ?thesis using armed st unfolding deadline_def by simp
    next
      case (Suc n)
      with armed tm have "timers s' = [Some i]" by simp
      moreover from w armed Suc have "filter is_warning (effects s') = []" by auto
      ultimately show ?thesis using armed st unfolding deadline_def by simp
    qed
  qed
qed

lemma deadline_step:
  assumes d: "deadline e s"
  shows "deadline e (step e s ev)"
proof (cases ev)
  case (Online w)
  from step_deadline_online[of e s w] d show ?thesis
    unfolding Online deadline_def by auto
next
  case (Message w msg)
  note m = step_deadline_message[of e s w msg]
  from m consider "timers (step e s (Message w msg)) = timers s"
    | t where "timers (step e s (Message w msg)) = (timers s)[t := None]"
    by blast
  then show ?thesis
  proof cases
    case 1
    show ?thesis unfolding Message using d m "1"
      by - (rule deadline_same[of e s], simp_all)
  next
    case 2
    show ?thesis unfolding Message using d m "2"
      by - (rule deadline_disarm[of e s _ t], simp_all)
  qed
next
  case (Timeout t)
  note m = step_deadline_timeout[of e s t]
  from m consider "timers (step e s (Timeout t)) = timers s"
       "filter is_warning (effects (step e s (Timeout t))) = filter is_warning (effects s)"
    | "t < length (timers s)" "timers s ! t \<noteq> None"
       "timers (step e s (Timeout t)) = (timers s)[t := None]"
       "length (filter is_warning (effects (step e s (Timeout t)))) \<le>
         length (filter is_warning (effects s)) + 1"
    by blast
  then show ?thesis
  proof cases
    case 1
    show ?thesis unfolding Timeout using d m "1"
      by - (rule deadline_same[of e s], simp_all)
  next
    case 2
    show ?thesis unfolding Timeout using d m "2"
      by - (rule deadline_disarm[of e s _ t], simp_all)
  qed
next
  case (Exit w c)
  with step_deadline_other[of ev e s] d show ?thesis
    by - (rule deadline_same[of e s], simp_all)
next
  case (Settle k out)
  with step_deadline_other[of ev e s] d show ?thesis
    by - (rule deadline_same[of e s], simp_all)
next
  case Signal
  with step_deadline_other[of ev e s] d show ?thesis
    by - (rule deadline_same[of e s], simp_all)
next
  case (StdinData x)
  with step_deadline_other[of ev e s] d show ?thesis
    by - (rule deadline_same[of e s], simp_all)
next
  case (ProcessError ty err)
  with step_deadline_other[of ev e s] d show ?thesis
    by - (rule deadline_same[of e s], simp_all)
qed

lemma deadline_run: "deadline e s \<Longrightarrow> deadline e (run e s evs)"
  by (induction evs arbitrary: s) (simp_all add: deadline_step)

subsection \<open>Evaluation at the concrete configuration\<close>

lemma replace_default_env4: "replace default_message (PATH env4) [] = default_message"
  by (simp add: replace.simps default_message_def env4_def)

lemma started_env4:
  "step env4 (main env4) (Message 0 started_message) = (main env4)\<lparr>active := 1\<rparr>"
  by (simp add: main_env4 step_def on_message_def ITC_event_def started_message_def Let_def)

lemma decimal_3: "decimal 3 = ''3''"
  by (simp add: decimal.simps digit_def)

lemma timeouts_start_env4: "timeouts_start env4 = 1000"
  by (simp add: env4_def)

lemma run_env4_request:
  "run env4 (step env4 (main env4) (Message 0 (request_message True)))
       [Online 3, Message 3 started_message] =
     (main env4)\<lparr>active := 1, starting := 1,
        pending := [Some (InvokeCont (request_message True))],
        effects := effects (main env4) @ [PoolCapture]\<rparr>"
  by (simp add: main_env4 step_def on_message_def ITC_invoke_def ITC_event_def on_online_def
      request_message_def started_message_def prim_defs count_env4 Let_def)

lemma run_env4_next:
  "step env4 (main env4) (Message 1 (request_message False)) =
     (main env4)\<lparr>pending := [Some (InvokeCont (request_message False))],
        effects := effects (main env4) @ [PoolNext]\<rparr>"
  by (simp add: main_env4 step_def on_message_def ITC_invoke_def
      request_message_def prim_defs Let_def)

lemma signal_env4:
  "step env4 (main env4) Signal =
     (main env4)\<lparr>finalization := True,
        effects := effects (main env4) @
          [LoggerClose, PostMessage 0 stop_message None, PostMessage 1 stop_message None,
           PostMessage 2 stop_message None, PostMessage 3 stop_message None],
        pending := [Some StopCont]\<rparr>"
  by (simp add: main_env4 step_def stop_def prim_defs Let_def)


subsection \<open>Worker population\<close>

text \<open>
  Claim C5. The number of slots is the number of ports, plus one for the balancer if there
  is one, plus one scheduler, plus the pool size, and the scheduler's slot is the number of
  servers. Exactly one slot below \<open>count\<close> is the scheduler's. The main function creates
  one worker per slot in ascending order of \<^verbatim>\<open>id\<close> (worker \<open>i\<close> is the i-th created and
  has captured slot \<open>i\<close>), registers worker \<open>i\<close> in \<open>threads[i]\<close>, makes the worker of
  the scheduler's slot the scheduler, and gives the pool exactly the workers of the slots
  above the scheduler's.
\<close>

theorem worker_population:
  "count e = length (case ports e of None \<Rightarrow> [] | Some ps \<Rightarrow> ps)
               + (if balancer e then 1 else 0) + 1 + poolSize e \<and>
   schedulerId e = serversCount e \<and>
   filter (\<lambda>i. i = schedulerId e) [0..<count e] = [schedulerId e] \<and>
   workers (main e) = [0..<count e] \<and>
   effects (main e) = map NewWorker [0..<count e] \<and>
   threads (main e) = map Some [0..<count e] \<and>
   scheduler (main e) = Some (schedulerId e) \<and>
   pool (main e) = filter (\<lambda>i. schedulerId e < i) [0..<count e]"
proof -
  have a: "count e = length (case ports e of None \<Rightarrow> [] | Some ps \<Rightarrow> ps)
               + (if balancer e then 1 else 0) + 1 + poolSize e"
    by (simp add: count_def serversCount_def schedulerCount_def)
  have b: "schedulerId e = serversCount e"
    by (simp add: schedulerId_def)
  have lt: "schedulerId e < count e" by (rule count_gt_schedulerId)
  have "k < n \<Longrightarrow> filter (\<lambda>i. i = k) [0..<n] = [k]" for k n :: nat
    by (induction n) (auto simp: less_Suc_eq filter_empty_conv)
  with lt have c: "filter (\<lambda>i. i = schedulerId e) [0..<count e] = [schedulerId e]"
    by blast
  have d: "filter (\<lambda>i. schedulerId e < i) [0..<n] = [Suc (schedulerId e)..<n]" for n
    by (induction n) auto
  have bm: "booted e (count e) (main e)" by (rule booted_main)
  have f: "workers (main e) = [0..<count e]"
    and g: "effects (main e) = map NewWorker [0..<count e]"
    and h: "threads (main e) = map Some [0..<count e]"
    using bm by (simp_all add: booted_def)
  have i: "scheduler (main e) = Some (schedulerId e)"
    using bm lt by (simp add: booted_def)
  have j: "pool (main e) = filter (\<lambda>i. schedulerId e < i) [0..<count e]"
    using bm by (simp add: booted_def d)
  from a b c f g h i j show ?thesis by blast
qed

theorem worker_population_witness:
  "count env4 = 4 \<and> schedulerId env4 = 2 \<and> workers (main env4) = [0, 1, 2, 3] \<and>
   scheduler (main env4) = Some 2 \<and> pool (main env4) = [3]"
  using worker_population[of env4]
  by (simp add: count_env4 schedulerId_env4 upt_rec)

subsection \<open>Exit of a worker\<close>

text \<open>
  Claim C3. When a worker that has captured slot \<open>workers s ! w\<close> reports its exit,
  \<open>active\<close> goes down by one. With a code other than 0 exactly one worker is created, for
  the same slot, and it replaces the old one in \<open>threads\<close>. With code 0 and \<open>active\<close>
  now 0 the process exits with code 0. With code 0 and \<open>active\<close> not 0 no worker is created;
  the fatal message is printed if \<open>active\<close> is negative and the slot is 0, and otherwise
  nothing is done at all.
\<close>

theorem exit_event:
  assumes "exited s = None" and "w < length (workers s)"
  shows "active (step e s (Exit w code)) = active s - 1 \<and>
     (code \<noteq> 0 \<longrightarrow>
        workers (step e s (Exit w code)) = workers s @ [workers s ! w] \<and>
        threads (step e s (Exit w code)) =
          array_set (threads s) (workers s ! w) (length (workers s)) \<and>
        effects (step e s (Exit w code)) = effects s @ [NewWorker (length (workers s))] \<and>
        exited (step e s (Exit w code)) = None) \<and>
     (code = 0 \<and> active s - 1 = 0 \<longrightarrow>
        exited (step e s (Exit w code)) = Some 0 \<and>
        effects (step e s (Exit w code)) = effects s @ [ProcessExit 0] \<and>
        workers (step e s (Exit w code)) = workers s \<and>
        threads (step e s (Exit w code)) = threads s) \<and>
     (code = 0 \<and> active s - 1 \<noteq> 0 \<longrightarrow>
        workers (step e s (Exit w code)) = workers s \<and>
        threads (step e s (Exit w code)) = threads s \<and>
        (if active s - 1 < 0 \<and> workers s ! w = 0
         then effects (step e s (Exit w code)) =
                effects s @ ConsoleError (replace ''Application server stopped'' (PATH e) []) #
                  (if logger s then [LoggerClose] else [ProcessExit 1])
         else effects (step e s (Exit w code)) = effects s \<and>
              exited (step e s (Exit w code)) = None))"
  using assms
  by (simp add: step_def on_exit_def start_def exit_def prim_defs Let_def)

theorem exit_event_witness:
  "active (step env4 (main env4) (Exit 3 7)) = - 1 \<and>
   workers (step env4 (main env4) (Exit 3 7)) = [0, 1, 2, 3, 3] \<and>
   threads (step env4 (main env4) (Exit 3 7)) = [Some 0, Some 1, Some 2, Some 4] \<and>
   effects (step env4 (main env4) (Exit 3 7)) = effects (main env4) @ [NewWorker 4] \<and>
   exited (step env4 (main env4) (Exit 3 7)) = None \<and>
   exited (step env4 (step env4 (main env4) (Message 0 started_message)) (Exit 0 0)) = Some 0 \<and>
   effects (step env4 (step env4 (main env4) (Message 0 started_message)) (Exit 0 0)) =
     effects (main env4) @ [ProcessExit 0] \<and>
   effects (step env4 (main env4) (Exit 3 0)) = effects (main env4) \<and>
   exited (step env4 (main env4) (Exit 3 0)) = None \<and>
   workers (step env4 (main env4) (Exit 3 0)) = workers (main env4)"
proof -
  have live: "exited (main env4) = None" and w: "3 < length (workers (main env4))"
    by (simp_all add: main_env4)
  have live': "exited (step env4 (main env4) (Message 0 started_message)) = None"
    and w': "0 < length (workers (step env4 (main env4) (Message 0 started_message)))"
    unfolding started_env4 by (simp_all add: main_env4)
  from exit_event[OF live w, of env4 7] exit_event[OF live' w', of env4 0]
    exit_event[OF live w, of env4 0]
  show ?thesis
    unfolding started_env4 by (simp add: main_env4 array_set_def)
qed

subsection \<open>Requests for a worker\<close>

text \<open>
  Claim C1. A message of type \<^verbatim>\<open>invoke\<close> with name \<^verbatim>\<open>request\<close> and a reply port makes
  the router call \<^verbatim>\<open>pool.capture()\<close> when \<^verbatim>\<open>exclusive\<close> is set and \<^verbatim>\<open>pool.next()\<close>
  otherwise, and nothing else at that moment. Whatever events are handled before the
  pool's promise settles (while the process runs), when the promise is fulfilled with a
  worker the message is posted to that worker with the port in its transfer list and
  nothing else is done; when the promise is rejected the error
  \<^verbatim>\<open>No thread available\<close> is posted on the port of the request and nothing is posted to
  any worker; when it is fulfilled with \<^verbatim>\<open>null\<close> nothing is done.
\<close>

theorem invoke_request:
  assumes live: "exited s = None" and w: "w < length (workers s)"
    and ty: "msg_type msg = ''invoke''" and nm: "msg_name msg = ''request''"
    and port: "msg_port msg = Some p"
    and later: "\<forall>out. Settle (length (pending s)) out \<notin> set evs"
    and t: "t = run e (step e s (Message w msg)) evs" and tlive: "exited t = None"
  shows "effects (step e s (Message w msg)) =
           effects s @ [if msg_exclusive msg then PoolCapture else PoolNext] \<and>
         effects (step e t (Settle (length (pending s)) (Fulfilled (Some thread)))) =
           effects t @ [PostMessage thread msg (Some [p])] \<and>
         effects (step e t (Settle (length (pending s)) (Rejected err))) =
           effects t @ [PortPostMessage p (ErrorReply ''No thread available'')] \<and>
         effects (step e t (Settle (length (pending s)) (Fulfilled None))) = effects t"
proof -
  let ?s1 = "step e s (Message w msg)"
  let ?k = "length (pending s)"
  have s1: "?s1 = await (InvokeCont msg)
                   (emit [if msg_exclusive msg then PoolCapture else PoolNext] s)"
    using live w ty nm by (simp add: step_def on_message_def ITC_invoke_def)
  then have a: "effects ?s1 = effects s @ [if msg_exclusive msg then PoolCapture else PoolNext]"
    by (simp add: prim_defs)
  from s1 have "?k < length (pending ?s1) \<and> pending ?s1 ! ?k = Some (InvokeCont msg)"
    by (simp add: prim_defs)
  with later t have k: "?k < length (pending t)" "pending t ! ?k = Some (InvokeCont msg)"
    using pending_run[of ?k ?s1 "InvokeCont msg" evs e] by simp_all
  have b: "effects (step e t (Settle ?k (Fulfilled (Some thread)))) =
             effects t @ [PostMessage thread msg (Some [p])]"
    using k tlive port by (simp add: step_def resume_def invoke_resume_def prim_defs)
  have c: "effects (step e t (Settle ?k (Rejected err))) =
             effects t @ [PortPostMessage p (ErrorReply ''No thread available'')]"
    using k tlive port by (simp add: step_def resume_def invoke_resume_def prim_defs)
  have d: "effects (step e t (Settle ?k (Fulfilled None))) = effects t"
    using k tlive port by (simp add: step_def resume_def invoke_resume_def prim_defs)
  from a b c d show ?thesis by blast
qed

theorem invoke_request_witness:
  "effects (step env4 (main env4) (Message 0 (request_message True))) =
     effects (main env4) @ [PoolCapture] \<and>
   effects (step env4
       (run env4 (step env4 (main env4) (Message 0 (request_message True)))
          [Online 3, Message 3 started_message])
       (Settle 0 (Fulfilled (Some 3)))) =
     effects (main env4) @ [PoolCapture, PostMessage 3 (request_message True) (Some [5])] \<and>
   effects (step env4
       (run env4 (step env4 (main env4) (Message 0 (request_message True)))
          [Online 3, Message 3 started_message])
       (Settle 0 (Rejected boom))) =
     effects (main env4) @ [PoolCapture, PortPostMessage 5 (ErrorReply ''No thread available'')] \<and>
   effects (step env4 (main env4) (Message 1 (request_message False))) =
     effects (main env4) @ [PoolNext] \<and>
   effects (step env4 (step env4 (main env4) (Message 1 (request_message False)))
       (Settle 0 (Fulfilled (Some 3)))) =
     effects (main env4) @ [PoolNext, PostMessage 3 (request_message False) (Some [5])]"
proof -
  have live: "exited (main env4) = None" and w0: "0 < length (workers (main env4))"
    and w1: "1 < length (workers (main env4))"
    by (simp_all add: main_env4)
  have ty: "msg_type (request_message x) = ''invoke''"
    and nm: "msg_name (request_message x) = ''request''"
    and port: "msg_port (request_message x) = Some 5" for x
    by (simp_all add: request_message_def)
  have q1: "\<forall>out. Settle (length (pending (main env4))) out
              \<notin> set [Online 3, Message 3 started_message]"
    and q2: "\<forall>out. Settle (length (pending (main env4))) out \<notin> set []"
    by simp_all
  have l1: "exited (run env4 (step env4 (main env4) (Message 0 (request_message True)))
              [Online 3, Message 3 started_message]) = None"
    unfolding run_env4_request by (simp add: main_env4)
  have l2: "exited (run env4 (step env4 (main env4) (Message 1 (request_message False))) [])
              = None"
    unfolding run_env4_next by (simp add: main_env4)
  note a = invoke_request[OF live w0 ty nm port q1 refl l1, where thread = 3 and err = boom]
  note b = invoke_request[OF live w1 ty nm port q2 refl l2, where thread = 3 and err = boom]
  from a b show ?thesis
    unfolding run_env4_request run_env4_next
    by (simp add: main_env4 request_message_def)
qed

subsection \<open>Completion notices\<close>

text \<open>
  Claim C2, as amended. A message of type \<^verbatim>\<open>invoke\<close> with name \<^verbatim>\<open>done\<close>: when
  \<^verbatim>\<open>exclusive\<close> is set, the router calls \<^verbatim>\<open>pool.release\<close> on the worker from which the
  message arrived, the sender, and does nothing else; when \<^verbatim>\<open>exclusive\<close> is not set it does
  nothing.
\<close>

theorem invoke_done:
  assumes "exited s = None" and "w < length (workers s)"
    and "msg_type msg = ''invoke''" and "msg_name msg = ''done''"
  shows "step e s (Message w msg) =
           (if msg_exclusive msg then s\<lparr>effects := effects s @ [PoolRelease w]\<rparr> else s)"
  using assms by (simp add: step_def on_message_def ITC_invoke_def prim_defs)

theorem invoke_done_witness:
  "step env4 (main env4) (Message 3 (done_message True)) =
     (main env4)\<lparr>effects := effects (main env4) @ [PoolRelease 3]\<rparr> \<and>
   step env4 (main env4) (Message 3 (done_message False)) = main env4"
proof -
  have live: "exited (main env4) = None" and w: "3 < length (workers (main env4))"
    by (simp_all add: main_env4)
  have ty: "msg_type (done_message x) = ''invoke''"
    and nm: "msg_name (done_message x) = ''done''" for x
    by (simp_all add: done_message_def)
  from invoke_done[OF live w ty[of True] nm, where e = env4]
    invoke_done[OF live w ty[of False] nm, where e = env4]
  show ?thesis by (simp add: done_message_def)
qed

text \<open>
  Claim C2 as stated fails. Worker 0 asks for an exclusive worker and the pool gives worker
  3, which receives the request. A notice \<^verbatim>\<open>done\<close> that arrives from worker 0 releases
  worker 0, the sender, and not worker 3, which the request was given to.
\<close>

theorem done_releases_sender:
  "effects (run env4 (main env4)
      [Message 0 (request_message True), Settle 0 (Fulfilled (Some 3)),
       Message 0 (done_message True)]) =
     effects (main env4) @
       [PoolCapture, PostMessage 3 (request_message True) (Some [5]), PoolRelease 0]"
  by (simp add: main_env4 step_def on_message_def ITC_invoke_def resume_def invoke_resume_def
      request_message_def done_message_def prim_defs Let_def)

subsection \<open>Shutdown\<close>



subsection \<open>Errors of the process\<close>

text \<open>
  Claim C8. An uncaught exception, a warning or an unhandled rejection is printed as
  \<^verbatim>\<open>type error: text\<close>. While \<open>initialization\<close> holds (and so \<open>finalization\<close> does not: it is
  set only by \<^verbatim>\<open>stop\<close>, which is registered after the start loop) the fatal message is
  printed next, with every occurrence of the working directory removed, and the process
  exits with code 1: at once when there is no logger yet, and otherwise when the close of
  the logger completes, whatever is handled in between. After \<open>initialization\<close> is cleared
  and before \<open>finalization\<close> is set the error is printed and nothing else changes. Once
  \<open>finalization\<close> is set the error is printed and nothing else changes.
\<close>

theorem logError_phases:
  assumes live: "exited s = None"
    and later: "\<forall>out. Settle (length (pending s)) out \<notin> set evs"
    and t: "t = run e (step e s (ProcessError type err)) evs"
  shows
    "(initialization s \<and> \<not> finalization s \<longrightarrow>
        effects (step e s (ProcessError type err)) =
          effects s @
            [ConsoleError (type @ '' error: '' @ error_text err),
             ConsoleError (replace default_message (PATH e) [])] @
            (if logger s then [LoggerClose] else [ProcessExit 1]) \<and>
        (if logger s
         then exited (step e s (ProcessError type err)) = None \<and>
              (exited t = None \<longrightarrow>
                 exited (step e t (Settle (length (pending s)) (Fulfilled v))) = Some 1 \<and>
                 effects (step e t (Settle (length (pending s)) (Fulfilled v))) =
                   effects t @ [ProcessExit 1])
         else exited (step e s (ProcessError type err)) = Some 1)) \<and>
     (\<not> initialization s \<and> \<not> finalization s \<longrightarrow>
        step e s (ProcessError type err) =
          s\<lparr>effects := effects s @ [ConsoleError (type @ '' error: '' @ error_text err)]\<rparr>) \<and>
     (finalization s \<longrightarrow>
        step e s (ProcessError type err) =
          s\<lparr>effects := effects s @ [ConsoleError (type @ '' error: '' @ error_text err)]\<rparr>)"
proof -
  let ?s1 = "step e s (ProcessError type err)"
  let ?k = "length (pending s)"
  have fin: "finalization s \<longrightarrow>
      ?s1 = s\<lparr>effects := effects s @ [ConsoleError (type @ '' error: '' @ error_text err)]\<rparr>"
    using live by (simp add: step_def logError_def prim_defs)
  have run: "\<not> initialization s \<and> \<not> finalization s \<longrightarrow>
      ?s1 = s\<lparr>effects := effects s @ [ConsoleError (type @ '' error: '' @ error_text err)]\<rparr>"
    using live by (simp add: step_def logError_def prim_defs)
  have ini: "initialization s \<and> \<not> finalization s \<longrightarrow>
      effects ?s1 =
          effects s @
            [ConsoleError (type @ '' error: '' @ error_text err),
             ConsoleError (replace default_message (PATH e) [])] @
            (if logger s then [LoggerClose] else [ProcessExit 1]) \<and>
      (if logger s then exited ?s1 = None \<and> pending ?s1 = pending s @ [Some ExitCont]
       else exited ?s1 = Some 1)"
    using live by (simp add: step_def logError_def exit_def prim_defs Let_def)
  have res: "exited (step e t (Settle ?k (Fulfilled v))) = Some 1 \<and>
             effects (step e t (Settle ?k (Fulfilled v))) = effects t @ [ProcessExit 1]"
    if "initialization s" "\<not> finalization s" "logger s" "exited t = None"
  proof -
    from ini that have "?k < length (pending ?s1) \<and> pending ?s1 ! ?k = Some ExitCont"
      by simp
    with later t have "?k < length (pending t)" "pending t ! ?k = Some ExitCont"
      using pending_run[of ?k ?s1 ExitCont evs e] by simp_all
    with that(4) show ?thesis
      by (simp add: step_def resume_def prim_defs)
  qed
  from fin run ini res show ?thesis by simp
qed

theorem logError_phases_witness:
  "effects (step env4 (init env4) (ProcessError ''warning'' boom)) =
     [ConsoleError ''warning error: Error: boom'',
      ConsoleError ''Can not start Application server'', LoggerClose] \<and>
   exited (step env4 (step env4 (init env4) (ProcessError ''warning'' boom))
      (Settle 0 (Fulfilled None))) = Some 1 \<and>
   effects (step env4 ((init env4)\<lparr>logger := False\<rparr>) (ProcessError ''warning'' boom)) =
     [ConsoleError ''warning error: Error: boom'',
      ConsoleError ''Can not start Application server'', ProcessExit 1] \<and>
   exited (step env4 ((init env4)\<lparr>logger := False\<rparr>) (ProcessError ''warning'' boom)) = Some 1 \<and>
   step env4 (main env4) (ProcessError ''warning'' boom) =
     (main env4)\<lparr>effects := effects (main env4) @ [ConsoleError ''warning error: Error: boom'']\<rparr> \<and>
   step env4 (step env4 (main env4) Signal) (ProcessError ''warning'' boom) =
     (step env4 (main env4) Signal)\<lparr>effects := effects (step env4 (main env4) Signal) @
        [ConsoleError ''warning error: Error: boom'']\<rparr>"
proof -
  have quiet: "\<forall>out. Settle (length (pending s)) out \<notin> set []" for s :: state
    by simp
  have etext: "error_text boom = ''Error: boom''"
    by (simp add: error_text_def truthy_def boom_def)
  have l1: "exited (init env4) = None" and l2: "exited ((init env4)\<lparr>logger := False\<rparr>) = None"
    and l3: "exited (main env4) = None"
    by (simp_all add: init_def main_env4)
  have l4: "exited (step env4 (main env4) Signal) = None"
    unfolding signal_env4 by (simp add: main_env4)
  have f1: "initialization (init env4) \<and> \<not> finalization (init env4) \<and> logger (init env4)"
    by (simp add: init_def)
  have f3: "\<not> initialization (main env4) \<and> \<not> finalization (main env4)"
    by (simp add: main_env4)
  have f4: "finalization (step env4 (main env4) Signal)"
    unfolding signal_env4 by simp
  have e1: "exited (step env4 (init env4) (ProcessError ''warning'' boom)) = None"
    by (simp add: init_def step_def logError_def exit_def prim_defs Let_def)
  note a = logError_phases[OF l1 quiet refl, of env4 "''warning''" boom None]
  note b = logError_phases[OF l2 quiet refl, of env4 "''warning''" boom None]
  note c = logError_phases[OF l3 quiet refl, of env4 "''warning''" boom None]
  note d = logError_phases[OF l4 quiet refl, of env4 "''warning''" boom None]
  from a f1 e1 have a': "effects (step env4 (init env4) (ProcessError ''warning'' boom)) =
     effects (init env4) @ [ConsoleError (''warning'' @ '' error: '' @ error_text boom),
      ConsoleError (replace default_message (PATH env4) []), LoggerClose] \<and>
   exited (step env4 (step env4 (init env4) (ProcessError ''warning'' boom))
      (Settle (length (pending (init env4))) (Fulfilled None))) = Some 1"
    by simp
  from b f1 have b': "effects (step env4 ((init env4)\<lparr>logger := False\<rparr>) (ProcessError ''warning'' boom)) =
     effects (init env4) @ [ConsoleError (''warning'' @ '' error: '' @ error_text boom),
      ConsoleError (replace default_message (PATH env4) []), ProcessExit 1] \<and>
   exited (step env4 ((init env4)\<lparr>logger := False\<rparr>) (ProcessError ''warning'' boom)) = Some 1"
    by simp
  from c f3 have c': "step env4 (main env4) (ProcessError ''warning'' boom) =
     (main env4)\<lparr>effects := effects (main env4) @
        [ConsoleError (''warning'' @ '' error: '' @ error_text boom)]\<rparr>"
    by simp
  from d f4 have d': "step env4 (step env4 (main env4) Signal) (ProcessError ''warning'' boom) =
     (step env4 (main env4) Signal)\<lparr>effects := effects (step env4 (main env4) Signal) @
         [ConsoleError (''warning'' @ '' error: '' @ error_text boom)]\<rparr>"
    by simp
  from a'[unfolded replace_default_env4] b'[unfolded replace_default_env4] c' d'
  show ?thesis
    by (simp add: etext default_message_def init_def)
qed

subsection \<open>Restart of a pool worker\<close>

text \<open>
  Claim C9. In every state the supervisor reaches from the main function, while the
  process runs, when a worker of a slot above the scheduler's exits with a code other than
  0, the worker created in its place is added at the end of the pool. The exited worker is
  in the pool and stays there: the pool had one entry fewer before, and whatever is handled
  afterwards the pool keeps the old entries and the new one as a prefix. The two
  workers are different and have captured the same slot, so the pool holds two workers of
  one slot, one of them exited.
\<close>

theorem pool_grows_on_restart:
  assumes s: "s = run e (main e) evs" and live: "exited s = None"
    and w: "w < length (workers s)" and slot: "schedulerId e < workers s ! w"
    and code: "code \<noteq> 0"
  shows "pool (step e s (Exit w code)) = pool s @ [length (workers s)] \<and>
     workers (step e s (Exit w code)) = workers s @ [workers s ! w] \<and>
     w \<in> set (pool s) \<and>
     length (workers s) \<notin> set (pool s) \<and>
     prefix (pool s @ [length (workers s)]) (pool (run e (step e s (Exit w code)) evs'))"
proof -
  have inv: "coherent e s" using s by (simp add: coherent_run coherent_main)
  have a: "pool (step e s (Exit w code)) = pool s @ [length (workers s)]"
    using live w slot code by (simp add: step_def on_exit_def start_def prim_defs Let_def)
  have b: "workers (step e s (Exit w code)) = workers s @ [workers s ! w]"
    using live w slot code by (simp add: step_def on_exit_def start_def prim_defs Let_def)
  have c: "w \<in> set (pool s)" using inv w slot by (simp add: coherent_def)
  have d: "length (workers s) \<notin> set (pool s)"
    using inv by (auto simp: coherent_def)
  have "prefix (pool (step e s (Exit w code))) (pool (run e (step e s (Exit w code)) evs'))"
    by (rule pool_run)
  with a b c d show ?thesis by simp
qed

theorem pool_grows_on_restart_witness:
  "pool (step env4 (main env4) (Exit 3 7)) = [3, 4] \<and>
   workers (step env4 (main env4) (Exit 3 7)) = [0, 1, 2, 3, 3] \<and>
   3 \<in> set (pool (main env4)) \<and>
   prefix [3, 4] (pool (run env4 (step env4 (main env4) (Exit 3 7)) [Online 4, Exit 4 1]))"
proof -
  have s: "main env4 = run env4 (main env4) []" by simp
  have live: "exited (main env4) = None" and w: "3 < length (workers (main env4))"
    and slot: "schedulerId env4 < workers (main env4) ! 3"
    by (simp_all add: main_env4 schedulerId_env4)
  have code: "(7::int) \<noteq> 0" by simp
  from pool_grows_on_restart[OF s live w slot code, of "[Online 4, Exit 4 1]"]
  show ?thesis
    by (simp add: main_env4 step_def on_online_def on_exit_def start_def array_set_def
        prim_defs count_env4 schedulerId_env4 Let_def)
qed

subsection \<open>Exit with code 0 while other workers are counted\<close>

text \<open>
  Claim C10, as amended. In every state the supervisor reaches from the main function,
  while the process runs: when a worker exits with code 0 and, after the decrement,
  \<open>active\<close> is not 0 and it is not the case that \<open>active\<close> is negative and the slot is 0,
  the supervisor only decrements \<open>active\<close>: nothing is printed or posted, no worker is
  created and the process does not exit. From then on, whatever is handled, as long as no
  exit is reported for a worker of that slot that exists at that moment (a worker exits
  once), no worker is ever created for the slot and the slot's entry of \<open>threads\<close> stays
  what it was.
\<close>

theorem clean_exit_leaves_slot_dead:
  assumes s: "s = run e (main e) evs" and live: "exited s = None"
    and w: "w < length (workers s)"
    and nz: "active s - 1 \<noteq> 0" and nf: "\<not> (active s - 1 < 0 \<and> workers s ! w = 0)"
    and quiet: "\<forall>w' c. Exit w' c \<in> set evs' \<longrightarrow> w' < length (workers s) \<longrightarrow>
                  workers s ! w' \<noteq> workers s ! w"
  shows "step e s (Exit w 0) = s\<lparr>active := active s - 1\<rparr> \<and>
     take (length (workers s)) (workers (run e (step e s (Exit w 0)) evs')) = workers s \<and>
     workers s ! w \<notin>
       set (drop (length (workers s)) (workers (run e (step e s (Exit w 0)) evs'))) \<and>
     threads (run e (step e s (Exit w 0)) evs') ! (workers s ! w) = threads s ! (workers s ! w)"
proof -
  let ?t = "s\<lparr>active := active s - 1\<rparr>"
  have st: "step e s (Exit w 0) = ?t"
    using live w nz nf by (auto simp: step_def on_exit_def)
  have "coherent e s" using s by (simp add: coherent_run coherent_main)
  then have inv: "coherent e ?t" by (rule coherent_fields) simp
  have "take (length (workers s)) (workers (run e ?t evs')) = workers s \<and>
      workers s ! w \<notin> set (drop (length (workers s)) (workers (run e ?t evs'))) \<and>
      threads (run e ?t evs') ! (workers s ! w) = threads ?t ! (workers s ! w)"
    using inv quiet by (intro slot_stays_run) simp_all
  with st show ?thesis by simp
qed

theorem clean_exit_leaves_slot_dead_witness:
  "step env4 (main env4) (Exit 3 0) = (main env4)\<lparr>active := - 1\<rparr> \<and>
   workers (run env4 (step env4 (main env4) (Exit 3 0)) [Online 0, Exit 0 1]) = [0, 1, 2, 3, 0] \<and>
   threads (run env4 (step env4 (main env4) (Exit 3 0)) [Online 0, Exit 0 1]) ! 3 = Some 3"
proof -
  have s: "main env4 = run env4 (main env4) []" by simp
  have live: "exited (main env4) = None" and w: "3 < length (workers (main env4))"
    and nz: "active (main env4) - 1 \<noteq> 0"
    and nf: "\<not> (active (main env4) - 1 < 0 \<and> workers (main env4) ! 3 = 0)"
    by (simp_all add: main_env4)
  have quiet: "\<forall>w' c. Exit w' c \<in> set [Online 0, Exit 0 1] \<longrightarrow>
      w' < length (workers (main env4)) \<longrightarrow> workers (main env4) ! w' \<noteq> workers (main env4) ! 3"
    by (simp add: main_env4)
  from clean_exit_leaves_slot_dead[OF s live w nz nf quiet]
  show ?thesis
    by (simp add: main_env4 step_def on_online_def on_exit_def start_def array_set_def
        prim_defs count_env4 schedulerId_env4 Let_def)
qed

text \<open>
  Claim C10 as stated fails: an exit with code 0 before \<^verbatim>\<open>started\<close> is not always
  without action. Workers 0 and 3 are online and worker 0 has sent \<^verbatim>\<open>started\<close>. Worker 3
  exits with code 0 without having sent \<^verbatim>\<open>started\<close>: \<open>active\<close> goes from 1 to 0 and the
  process exits with code 0.
\<close>

theorem clean_exit_before_started_ends_process:
  "exited (run env4 (main env4)
      [Online 0, Online 3, Message 0 started_message, Exit 3 0]) = Some 0 \<and>
   effects (run env4 (main env4)
      [Online 0, Online 3, Message 0 started_message, Exit 3 0]) =
     effects (main env4) @ [ProcessExit 0]"
  by (simp add: main_env4 step_def on_online_def on_message_def ITC_event_def on_exit_def
      started_message_def prim_defs count_env4 Let_def)

subsection \<open>Bounds of the counters\<close>




subsection \<open>The startup deadline\<close>

text \<open>
  What holds of the deadline: the event \<^verbatim>\<open>started\<close> that takes \<open>active\<close> to \<open>count\<close>
  while the timer is set clears it, and the timer does nothing if it is reported
  afterwards; a timer that fires prints one warning if \<open>active\<close> is not \<open>count\<close> and
  nothing otherwise, and the process goes on; along every run at most one warning is
  printed.
\<close>

lemma at_most_one_warning:
  "length (filter is_warning (effects (run e (main e) evs))) \<le> 1"
  using deadline_run[OF deadline_main, of e evs]
  unfolding deadline_def by auto

lemma started_cancels_deadline:
  assumes "exited s = None" and "w < length (workers s)" and "startTimer s = Some t"
    and "active s + 1 = int (count e)"
  shows "step e s (Message w started_message) =
           s\<lparr>active := active s + 1, timers := (timers s)[t := None], startTimer := None,
             effects := effects s @ [ClearTimeout t]\<rparr>"
    and "step e (step e s (Message w started_message)) (Timeout t) =
           step e s (Message w started_message)"
  using assms
  by (auto simp: step_def on_message_def ITC_event_def started_message_def prim_defs Let_def
        split: option.splits)

lemma deadline_fires:
  assumes "exited s = None" and "t < length (timers s)" and "timers s ! t = Some i"
  shows "step e s (Timeout t) =
           (if active s \<noteq> int (count e)
            then s\<lparr>timers := (timers s)[t := None],
                   effects := effects s @
                     [ConsoleWarn (''Worker '' @ decimal i @ '' initialization timeout'')]\<rparr>
            else s\<lparr>timers := (timers s)[t := None]\<rparr>)"
  using assms by (simp add: step_def on_timeout_def prim_defs)

text \<open>
  Claim C7. The warning of the startup deadline names \<^verbatim>\<open>id\<close> of the call of \<^verbatim>\<open>start\<close> whose
  worker was the last to report online, since that callback arms the timer. Here all four
  workers report online, worker 3 last, and workers 1, 2 and 3 send \<^verbatim>\<open>started\<close>. When
  the deadline fires \<open>active\<close> is 3, not 4, and one warning is printed. It names worker 3,
  which has started; the worker that has not started is worker 0.
\<close>

theorem timeout_warning_names_last_online:
  "effects (run env4 (main env4)
      [Online 0, Online 1, Online 2, Online 3, Message 1 started_message,
       Message 2 started_message, Message 3 started_message, Timeout 0]) =
     effects (main env4) @
       [SetTimeout 0 1000, ConsoleWarn ''Worker 3 initialization timeout''] \<and>
   starteds
      [Online 0, Online 1, Online 2, Online 3, Message 1 started_message,
       Message 2 started_message, Message 3 started_message, Timeout 0] = [1, 2, 3] \<and>
   exited (run env4 (main env4)
      [Online 0, Online 1, Online 2, Online 3, Message 1 started_message,
       Message 2 started_message, Message 3 started_message, Timeout 0]) = None"
  by (simp add: main_env4 step_def on_online_def on_message_def ITC_event_def on_timeout_def
      started_message_def prim_defs count_env4 decimal_3 timeouts_start_env4 Let_def)

end
